theory Spec2Isabelle
  imports Main "HOL-Library.Word"
begin

section \<open>Bytes, buffers and strings\<close>

text \<open>
  A Node.js \<open>Buffer\<close> is a sequence of unsigned 8-bit integers; a JavaScript string is a
  sequence of 16-bit code units. Numbers that the program passes around (\<open>messageId\<close>,
  \<open>flags\<close>, offsets) are modelled for their integer values: \<open>int\<close> where the caller may
  pass a negative value, \<open>nat\<close> for lengths, offsets and values read from bytes.
\<close>

type_synonym byte = "8 word"
type_synonym buffer = "byte list"
type_synonym jsstring = "16 word list"

text \<open>The string literal of the source, as code units (every character is ASCII).\<close>

definition js :: "string \<Rightarrow> jsstring" where
  "js s = map (\<lambda>c. of_nat (of_char c)) s"

section \<open>The platform: the Buffer methods the program calls\<close>

text \<open>
  The errors a call can end with. \<open>ERR_OUT_OF_RANGE\<close> and \<open>ERR_BUFFER_OUT_OF_BOUNDS\<close> are
  the two \<open>RangeError\<close> codes that the Buffer read and write methods throw. The
  remaining constructors are the error kinds that the specification names; they are here
  so that statements about them can be written down, and no function below produces one.
\<close>

datatype error =
    ERR_OUT_OF_RANGE
  | ERR_BUFFER_OUT_OF_BOUNDS
  | TruncatedHeader
  | TruncatedPayload
  | LengthMismatch
  | PayloadTooLarge
  | FieldOverflow

text \<open>
  \<open>boundsError(value, length)\<close> of Node's \<open>lib/internal/buffer.js\<close>, for an integer
  offset: \<open>ERR_BUFFER_OUT_OF_BOUNDS\<close> when the buffer is too short for any offset,
  \<open>ERR_OUT_OF_RANGE\<close> otherwise.
\<close>

definition boundsError :: "nat \<Rightarrow> int \<Rightarrow> error" where
  "boundsError offset len = (if len < 0 then ERR_BUFFER_OUT_OF_BOUNDS else ERR_OUT_OF_RANGE)"

text \<open>
  The reads: \<open>first = this[offset]\<close>, \<open>last = this[offset + n - 1]\<close>, an error when either
  is \<open>undefined\<close>, the value otherwise.
\<close>

definition readUInt32BE :: "buffer \<Rightarrow> nat \<Rightarrow> error + nat" where
  "readUInt32BE buf offset =
     (if \<not> (offset < length buf \<and> offset + 3 < length buf)
      then Inl (boundsError offset (int (length buf) - 4))
      else Inr (unat (buf ! offset) * 2 ^ 24 + unat (buf ! (offset + 1)) * 2 ^ 16
                + unat (buf ! (offset + 2)) * 2 ^ 8 + unat (buf ! (offset + 3))))"

definition readUInt16BE :: "buffer \<Rightarrow> nat \<Rightarrow> error + nat" where
  "readUInt16BE buf offset =
     (if \<not> (offset < length buf \<and> offset + 1 < length buf)
      then Inl (boundsError offset (int (length buf) - 2))
      else Inr (unat (buf ! offset) * 2 ^ 8 + unat (buf ! (offset + 1))))"

definition readUInt16LE :: "buffer \<Rightarrow> nat \<Rightarrow> error + nat" where
  "readUInt16LE buf offset =
     (if \<not> (offset < length buf \<and> offset + 1 < length buf)
      then Inl (boundsError offset (int (length buf) - 2))
      else Inr (unat (buf ! offset) + unat (buf ! (offset + 1)) * 2 ^ 8))"

text \<open>
  The writes: \<open>checkInt\<close> first compares the value with the field's range, then
  \<open>checkBounds\<close> looks at \<open>buf[offset]\<close> and \<open>buf[offset + n - 1]\<close>; the bytes are then
  stored one by one, each store keeping the low 8 bits, the value shifted by \<open>>>> 8\<close>
  in between.
\<close>

definition writeUInt32BE :: "buffer \<Rightarrow> int \<Rightarrow> nat \<Rightarrow> error + buffer" where
  "writeUInt32BE buf v offset =
     (if v > 4294967295 \<or> v < 0 then Inl ERR_OUT_OF_RANGE
      else if \<not> (offset < length buf \<and> offset + 3 < length buf)
      then Inl (boundsError offset (int (length buf) - 4))
      else Inr (buf[offset + 3 := word_of_int v,
                    offset + 2 := word_of_int (v div 2 ^ 8),
                    offset + 1 := word_of_int (v div 2 ^ 16),
                    offset := word_of_int (v div 2 ^ 24)]))"

definition writeUInt16BE :: "buffer \<Rightarrow> int \<Rightarrow> nat \<Rightarrow> error + buffer" where
  "writeUInt16BE buf v offset =
     (if v > 65535 \<or> v < 0 then Inl ERR_OUT_OF_RANGE
      else if \<not> (offset < length buf \<and> offset + 1 < length buf)
      then Inl (boundsError offset (int (length buf) - 2))
      else Inr (buf[offset := word_of_int (v div 2 ^ 8),
                    offset + 1 := word_of_int v]))"

definition writeUInt16LE :: "buffer \<Rightarrow> int \<Rightarrow> nat \<Rightarrow> error + buffer" where
  "writeUInt16LE buf v offset =
     (if v > 65535 \<or> v < 0 then Inl ERR_OUT_OF_RANGE
      else if \<not> (offset < length buf \<and> offset + 1 < length buf)
      then Inl (boundsError offset (int (length buf) - 2))
      else Inr (buf[offset := word_of_int v,
                    offset + 1 := word_of_int (v div 2 ^ 8)]))"

text \<open>\<open>Buffer.alloc(size)\<close>: a new buffer of \<open>size\<close> zero bytes.\<close>

definition Buffer_alloc :: "nat \<Rightarrow> buffer" where
  "Buffer_alloc n = replicate n 0"

text \<open>
  \<open>source.copy(target, targetStart)\<close>: as many bytes of the source as fit are stored in
  the target from \<open>targetStart\<close> on; the target keeps its length.
\<close>

definition Buffer_copy :: "buffer \<Rightarrow> buffer \<Rightarrow> nat \<Rightarrow> buffer" where
  "Buffer_copy source target targetStart =
     (let n = min (length source) (length target - targetStart)
      in take targetStart target @ take n source @ drop (targetStart + n) target)"

subsection \<open>UTF-8\<close>

text \<open>The bytes of one code point.\<close>

definition utf8_of_codepoint :: "nat \<Rightarrow> buffer" where
  "utf8_of_codepoint cp =
     (if cp < 0x80 then [of_nat cp]
      else if cp < 0x800 then [of_nat (0xC0 + cp div 64), of_nat (0x80 + cp mod 64)]
      else if cp < 0x10000 then
        [of_nat (0xE0 + cp div 4096), of_nat (0x80 + cp div 64 mod 64), of_nat (0x80 + cp mod 64)]
      else
        [of_nat (0xF0 + cp div 262144), of_nat (0x80 + cp div 4096 mod 64),
         of_nat (0x80 + cp div 64 mod 64), of_nat (0x80 + cp mod 64)])"

definition is_high_surrogate :: "16 word \<Rightarrow> bool" where
  "is_high_surrogate u = (0xD800 \<le> unat u \<and> unat u \<le> 0xDBFF)"

definition is_low_surrogate :: "16 word \<Rightarrow> bool" where
  "is_low_surrogate u = (0xDC00 \<le> unat u \<and> unat u \<le> 0xDFFF)"

text \<open>
  \<open>Buffer.from(string, "utf8")\<close>: a surrogate pair is one code point of four bytes, a
  surrogate without its partner is written as U+FFFD (\<open>ef bf bd\<close>).
\<close>

fun Buffer_from_utf8 :: "jsstring \<Rightarrow> buffer" where
  "Buffer_from_utf8 [] = []"
| "Buffer_from_utf8 [u] =
     (if is_high_surrogate u \<or> is_low_surrogate u then utf8_of_codepoint 0xFFFD
      else utf8_of_codepoint (unat u))"
| "Buffer_from_utf8 (u # v # vs) =
     (if is_high_surrogate u \<and> is_low_surrogate v
      then utf8_of_codepoint (0x10000 + (unat u - 0xD800) * 1024 + (unat v - 0xDC00))
             @ Buffer_from_utf8 vs
      else if is_high_surrogate u \<or> is_low_surrogate u
      then utf8_of_codepoint 0xFFFD @ Buffer_from_utf8 (v # vs)
      else utf8_of_codepoint (unat u) @ Buffer_from_utf8 (v # vs))"

text \<open>
  Decoding, on the byte values: a well-formed sequence gives its code point; a byte that
  cannot start or continue a sequence ends the current one, which then counts as one
  U+FFFD, and is looked at again as a first byte.
\<close>

definition is_continuation :: "nat \<Rightarrow> bool" where
  "is_continuation b = (0x80 \<le> b \<and> b \<le> 0xBF)"

text \<open>The range allowed for the second byte, which depends on the first.\<close>

definition second_byte_ok :: "nat \<Rightarrow> nat \<Rightarrow> bool" where
  "second_byte_ok b c =
     (if b = 0xE0 then 0xA0 \<le> c \<and> c \<le> 0xBF
      else if b = 0xED then 0x80 \<le> c \<and> c \<le> 0x9F
      else if b = 0xF0 then 0x90 \<le> c \<and> c \<le> 0xBF
      else if b = 0xF4 then 0x80 \<le> c \<and> c \<le> 0x8F
      else is_continuation c)"

fun utf8_decode :: "nat list \<Rightarrow> nat list" where
  "utf8_decode [] = []"
| "utf8_decode (b # bs) =
     (if b < 0x80 then b # utf8_decode bs
      else if 0xC2 \<le> b \<and> b \<le> 0xDF then
        (case bs of
           [] \<Rightarrow> [0xFFFD]
         | c1 # r1 \<Rightarrow>
             if is_continuation c1
             then ((b - 0xC0) * 64 + (c1 - 0x80)) # utf8_decode r1
             else 0xFFFD # utf8_decode bs)
      else if 0xE0 \<le> b \<and> b \<le> 0xEF then
        (case bs of
           [] \<Rightarrow> [0xFFFD]
         | c1 # r1 \<Rightarrow>
             if second_byte_ok b c1 then
               (case r1 of
                  [] \<Rightarrow> [0xFFFD]
                | c2 # r2 \<Rightarrow>
                    if is_continuation c2
                    then ((b - 0xE0) * 4096 + (c1 - 0x80) * 64 + (c2 - 0x80)) # utf8_decode r2
                    else 0xFFFD # utf8_decode r1)
             else 0xFFFD # utf8_decode bs)
      else if 0xF0 \<le> b \<and> b \<le> 0xF4 then
        (case bs of
           [] \<Rightarrow> [0xFFFD]
         | c1 # r1 \<Rightarrow>
             if second_byte_ok b c1 then
               (case r1 of
                  [] \<Rightarrow> [0xFFFD]
                | c2 # r2 \<Rightarrow>
                    if is_continuation c2 then
                      (case r2 of
                         [] \<Rightarrow> [0xFFFD]
                       | c3 # r3 \<Rightarrow>
                           if is_continuation c3
                           then ((b - 0xF0) * 262144 + (c1 - 0x80) * 4096
                                 + (c2 - 0x80) * 64 + (c3 - 0x80)) # utf8_decode r3
                           else 0xFFFD # utf8_decode r2)
                    else 0xFFFD # utf8_decode r1)
             else 0xFFFD # utf8_decode bs)
      else 0xFFFD # utf8_decode bs)"

text \<open>A code point as one code unit, or as a surrogate pair.\<close>

definition utf16_of_codepoint :: "nat \<Rightarrow> jsstring" where
  "utf16_of_codepoint cp =
     (if cp < 0x10000 then [of_nat cp]
      else [of_nat (0xD800 + (cp - 0x10000) div 1024), of_nat (0xDC00 + (cp - 0x10000) mod 1024)])"

text \<open>\<open>buf.toString("utf8", start)\<close>: the bytes from \<open>start\<close> to the end, decoded.\<close>

definition toString_utf8 :: "buffer \<Rightarrow> nat \<Rightarrow> jsstring" where
  "toString_utf8 buf start = concat (map utf16_of_codepoint (utf8_decode (map unat (drop start buf))))"

section \<open>The binary protocol of the program\<close>

record message =
  messageId :: nat
  length_field :: nat
  flags :: nat
  payload :: jsstring

definition binaryMessage :: buffer where
  "binaryMessage =
     [0x00, 0x00, 0x10, 0x20,
      0x00, 0x05,
      0x01, 0x00,
      0x48, 0x65, 0x6c, 0x6c, 0x6f]"

text \<open>
  \<open>parseMessage(buf)\<close>: the four reads of the body are made on the module's constant
  \<open>binaryMessage\<close>, as the source has them. A read that throws ends the call.
\<close>

definition parseMessage :: "buffer \<Rightarrow> error + message" where
  "parseMessage buf =
     (case readUInt32BE binaryMessage 0 of Inl e \<Rightarrow> Inl e | Inr mid \<Rightarrow>
     (case readUInt16BE binaryMessage 4 of Inl e \<Rightarrow> Inl e | Inr len \<Rightarrow>
     (case readUInt16LE binaryMessage 6 of Inl e \<Rightarrow> Inl e | Inr fl \<Rightarrow>
        Inr \<lparr>messageId = mid, length_field = len, flags = fl,
             payload = toString_utf8 binaryMessage 8\<rparr>)))"

text \<open>
  \<open>buildMessage(messageId, flags, payload)\<close>: the payload's bytes, a zeroed buffer of
  \<open>4 + 2 + 2 + length\<close> bytes, the three header writes in the order of the source (the
  first that throws ends the call), then the copy of the payload to offset 8.
\<close>

definition buildMessage :: "int \<Rightarrow> int \<Rightarrow> jsstring \<Rightarrow> error + buffer" where
  "buildMessage mid fl pl =
     (let payloadBuf = Buffer_from_utf8 pl;
          len = length payloadBuf;
          buf = Buffer_alloc (4 + 2 + 2 + len)
      in (case writeUInt32BE buf mid 0 of Inl e \<Rightarrow> Inl e | Inr buf1 \<Rightarrow>
         (case writeUInt16BE buf1 (int len) 4 of Inl e \<Rightarrow> Inl e | Inr buf2 \<Rightarrow>
         (case writeUInt16LE buf2 fl 6 of Inl e \<Rightarrow> Inl e | Inr buf3 \<Rightarrow>
            Inr (Buffer_copy payloadBuf buf3 8)))))"

section \<open>The hexdump of the program\<close>

text \<open>
  The strings that \<open>hexdump\<close> builds hold hexadecimal digits, spaces, dots and the
  printable ASCII characters only, so they are modelled as HOL strings, one character per
  code unit.

  \<open>n.toString(16)\<close> for a non-negative integer: the lowercase hexadecimal digits of
  \<open>n\<close>, without leading zeros.
\<close>

definition hex_digit :: "nat \<Rightarrow> char" where
  "hex_digit d = ''0123456789abcdef'' ! d"

fun toString16 :: "nat \<Rightarrow> string" where
  "toString16 n = (if n < 16 then [hex_digit n] else toString16 (n div 16) @ [hex_digit (n mod 16)])"

text \<open>
  \<open>s.padStart(n, pad)\<close> and \<open>s.padEnd(n, pad)\<close>: a string of length \<open>n\<close> or more is
  returned as it is; otherwise the missing characters are taken from the repeated pad
  string.
\<close>

definition padStart :: "string \<Rightarrow> nat \<Rightarrow> string \<Rightarrow> string" where
  "padStart s n pad =
     (if n \<le> length s \<or> pad = [] then s
      else take (n - length s) (concat (replicate (n - length s) pad)) @ s)"

definition padEnd :: "string \<Rightarrow> nat \<Rightarrow> string \<Rightarrow> string" where
  "padEnd s n pad =
     (if n \<le> length s \<or> pad = [] then s
      else s @ take (n - length s) (concat (replicate (n - length s) pad)))"

text \<open>\<open>xs.join(sep)\<close>.\<close>

fun join :: "string \<Rightarrow> string list \<Rightarrow> string" where
  "join sep [] = []"
| "join sep [x] = x"
| "join sep (x # y # ys) = x @ sep @ join sep (y # ys)"

text \<open>\<open>buf.slice(start, end)\<close> for \<open>0 \<le> start \<le> end\<close>: the bytes from \<open>start\<close> up to
  \<open>end\<close> or the end of the buffer, whichever comes first.\<close>

definition slice :: "buffer \<Rightarrow> nat \<Rightarrow> nat \<Rightarrow> buffer" where
  "slice buf start end = take (end - start) (drop start buf)"

text \<open>
  \<open>console.log(a, b, ...)\<close> with string arguments prints them separated by single
  spaces, as one line. (The first argument here is a string of hexadecimal digits, so it
  holds no format directive.)
\<close>

definition console_log :: "string list \<Rightarrow> string" where
  "console_log args = join '' '' args"

definition bytesPerLine :: nat where
  "bytesPerLine = 16"

text \<open>The three texts of the loop body, for the bytes \<open>line\<close> found at \<open>offset\<close>.\<close>

definition hex :: "buffer \<Rightarrow> string" where
  "hex line = join '' '' (map (\<lambda>b. padStart (toString16 (unat b)) 2 ''0'') line)"

definition ascii :: "buffer \<Rightarrow> string" where
  "ascii line =
     join [] (map (\<lambda>b. if unat b \<ge> 32 \<and> unat b \<le> 126 then [char_of (unat b)] else ''.'') line)"

definition print_line :: "nat \<Rightarrow> buffer \<Rightarrow> string" where
  "print_line offset line =
     console_log [padStart (toString16 offset) 4 ''0'', ''  '',
                  padEnd (hex line) (bytesPerLine * 3) '' '', '' '', ascii line]"

text \<open>
  The loop \<open>for (let offset = 0; offset < buf.length; offset += bytesPerLine)\<close>; the
  result is the list of the lines printed, first to last.
\<close>

function hexdump_from :: "buffer \<Rightarrow> nat \<Rightarrow> string list" where
  "hexdump_from buf offset =
     (if offset < length buf
      then print_line offset (slice buf offset (offset + bytesPerLine))
             # hexdump_from buf (offset + bytesPerLine)
      else [])"
  by pat_completeness auto
termination
  by (relation "measure (\<lambda>(buf, offset). length buf - offset)") (auto simp: bytesPerLine_def)

definition hexdump :: "buffer \<Rightarrow> string list" where
  "hexdump buf = hexdump_from buf 0"

section \<open>Reading a hexdump line back\<close>

text \<open>
  The specification speaks of the hex column ``split on whitespace and parsed as hex
  bytes''. These definitions follow those words; they are not part of the program.
\<close>

definition spec_hex_digit_value :: "char \<Rightarrow> nat option" where
  "spec_hex_digit_value c =
     (if c \<in> set ''0123456789'' then Some (of_char c - 48)
      else if c \<in> set ''abcdef'' then Some (of_char c - 87)
      else None)"

fun spec_parse_hex_acc :: "nat \<Rightarrow> string \<Rightarrow> nat option" where
  "spec_parse_hex_acc acc [] = Some acc"
| "spec_parse_hex_acc acc (c # cs) =
     (case spec_hex_digit_value c of None \<Rightarrow> None
      | Some d \<Rightarrow> spec_parse_hex_acc (16 * acc + d) cs)"

definition spec_parse_hex :: "string \<Rightarrow> nat option" where
  "spec_parse_hex s = (if s = [] then None else spec_parse_hex_acc 0 s)"

text \<open>Splitting on spaces: \<open>cur\<close> is the token being read, empty tokens are dropped.\<close>

fun spec_split_acc :: "string \<Rightarrow> string \<Rightarrow> string list" where
  "spec_split_acc cur [] = (if cur = [] then [] else [cur])"
| "spec_split_acc cur (c # cs) =
     (if c = CHR '' '' then (if cur = [] then spec_split_acc [] cs else cur # spec_split_acc [] cs)
      else spec_split_acc (cur @ [c]) cs)"

definition spec_split_whitespace :: "string \<Rightarrow> string list" where
  "spec_split_whitespace s = spec_split_acc [] s"

definition spec_parse_hex_column :: "string \<Rightarrow> nat option list" where
  "spec_parse_hex_column col = map spec_parse_hex (spec_split_whitespace col)"

definition spec_is_lower_hex :: "string \<Rightarrow> bool" where
  "spec_is_lower_hex s = (set s \<subseteq> set ''0123456789abcdef'')"

section \<open>Evaluation rules\<close>

text \<open>
  The recursive equations of the decoder, of the loop and of the digit conversion are
  applied by hand, one step at a time.
\<close>

lemma utf8_decode_ascii: "b < 0x80 \<Longrightarrow> utf8_decode (b # bs) = b # utf8_decode bs"
  by simp

declare utf8_decode.simps(2) [simp del]
declare hexdump_from.simps [simp del]
declare toString16.simps [simp del]

section \<open>The decoder\<close>

lemma toString_binaryMessage: "toString_utf8 binaryMessage 8 = js ''Hello''"
  by (simp add: binaryMessage_def toString_utf8_def utf16_of_codepoint_def js_def utf8_decode_ascii)

lemma readUInt32BE_binaryMessage: "readUInt32BE binaryMessage 0 = Inr 4128"
  by (simp add: binaryMessage_def readUInt32BE_def)

lemma readUInt16BE_binaryMessage: "readUInt16BE binaryMessage 4 = Inr 5"
  by (simp add: binaryMessage_def readUInt16BE_def)

lemma readUInt16LE_binaryMessage: "readUInt16LE binaryMessage 6 = Inr 1"
  by (simp add: binaryMessage_def readUInt16LE_def)

lemma parseMessage_value:
  "parseMessage buf =
     Inr \<lparr>messageId = 4128, length_field = 5, flags = 1, payload = js ''Hello''\<rparr>"
  by (simp add: parseMessage_def toString_binaryMessage readUInt32BE_binaryMessage
      readUInt16BE_binaryMessage readUInt16LE_binaryMessage)

text \<open>
  Claim C10. \<open>parseMessage\<close> is a constant function of its argument: whatever buffer it
  is given, of any length, the empty one included, it reads \<open>binaryMessage\<close> and returns
  the record with \<open>messageId\<close> 4128, \<open>length\<close> 5, \<open>flags\<close> 1 and payload \<open>Hello\<close>; so any
  two buffers give the same result.
\<close>

theorem parseMessage_constant:
  "parseMessage buf =
     Inr \<lparr>messageId = 4128, length_field = 5, flags = 1, payload = js ''Hello''\<rparr>
   \<and> parseMessage [] = parseMessage buf
   \<and> parseMessage buf = parseMessage buf'"
  by (simp add: parseMessage_value)

section \<open>The encoder\<close>

lemma Buffer_alloc_header: "Buffer_alloc (8 + n) = 0 # 0 # 0 # 0 # 0 # 0 # 0 # 0 # replicate n 0"
  by (simp add: Buffer_alloc_def numeral_eq_Suc)

lemma writeUInt32BE_at_0: "0 \<le> v \<Longrightarrow> v < 2 ^ 32 \<Longrightarrow>
  writeUInt32BE (a0 # a1 # a2 # a3 # rest) v 0 =
    Inr (word_of_int (v div 2 ^ 24) # word_of_int (v div 2 ^ 16) # word_of_int (v div 2 ^ 8) # word_of_int v # rest)"
  by (simp add: writeUInt32BE_def)

lemma writeUInt16BE_at_4: "0 \<le> v \<Longrightarrow> v < 2 ^ 16 \<Longrightarrow>
  writeUInt16BE (a0 # a1 # a2 # a3 # a4 # a5 # rest) v 4 =
    Inr (a0 # a1 # a2 # a3 # word_of_int (v div 2 ^ 8) # word_of_int v # rest)"
  by (simp add: writeUInt16BE_def)

lemma writeUInt16LE_at_6: "0 \<le> v \<Longrightarrow> v < 2 ^ 16 \<Longrightarrow>
  writeUInt16LE (a0 # a1 # a2 # a3 # a4 # a5 # a6 # a7 # rest) v 6 =
    Inr (a0 # a1 # a2 # a3 # a4 # a5 # word_of_int v # word_of_int (v div 2 ^ 8) # rest)"
  by (simp add: writeUInt16LE_def)

lemma writeUInt32BE_range: "v < 0 \<or> 2 ^ 32 \<le> v \<Longrightarrow> writeUInt32BE buf v offset = Inl ERR_OUT_OF_RANGE"
  by (auto simp add: writeUInt32BE_def)

lemma writeUInt16BE_range: "v < 0 \<or> 2 ^ 16 \<le> v \<Longrightarrow> writeUInt16BE buf v offset = Inl ERR_OUT_OF_RANGE"
  by (auto simp add: writeUInt16BE_def)

lemma writeUInt16LE_range: "v < 0 \<or> 2 ^ 16 \<le> v \<Longrightarrow> writeUInt16LE buf v offset = Inl ERR_OUT_OF_RANGE"
  by (auto simp add: writeUInt16LE_def)

lemma Buffer_copy_at_8:
  "Buffer_copy src (a0 # a1 # a2 # a3 # a4 # a5 # a6 # a7 # replicate (length src) x) 8
   = a0 # a1 # a2 # a3 # a4 # a5 # a6 # a7 # src"
  by (simp add: Buffer_copy_def)

lemma buildMessage_bytes:
  assumes "0 \<le> mid" "mid < 2 ^ 32" "0 \<le> fl" "fl < 2 ^ 16" "length (Buffer_from_utf8 pl) \<le> 65535"
  shows "buildMessage mid fl pl =
     Inr ([word_of_int (mid div 2 ^ 24), word_of_int (mid div 2 ^ 16), word_of_int (mid div 2 ^ 8), word_of_int mid,
           word_of_int (int (length (Buffer_from_utf8 pl)) div 2 ^ 8), word_of_int (int (length (Buffer_from_utf8 pl))),
           word_of_int fl, word_of_int (fl div 2 ^ 8)] @ Buffer_from_utf8 pl)"
  using assms by (simp add: buildMessage_def Let_def Buffer_alloc_header writeUInt32BE_at_0
      writeUInt16BE_at_4 writeUInt16LE_at_6 Buffer_copy_at_8)

lemma buildMessage_out_of_range:
  assumes "mid < 0 \<or> 2 ^ 32 \<le> mid \<or> fl < 0 \<or> 2 ^ 16 \<le> fl \<or> 65535 < length (Buffer_from_utf8 pl)"
  shows "buildMessage mid fl pl = Inl ERR_OUT_OF_RANGE"
proof (cases "mid < 0 \<or> 2 ^ 32 \<le> mid")
  case True
  then show ?thesis
    by (simp add: buildMessage_def Let_def writeUInt32BE_range)
next
  case mid_ok: False
  show ?thesis
  proof (cases "65535 < length (Buffer_from_utf8 pl)")
    case True
    with mid_ok show ?thesis
      by (simp add: buildMessage_def Let_def Buffer_alloc_header writeUInt32BE_at_0 writeUInt16BE_range)
  next
    case False
    with mid_ok assms have "fl < 0 \<or> 2 ^ 16 \<le> fl" by simp
    with mid_ok False show ?thesis
      by (simp add: buildMessage_def Let_def Buffer_alloc_header writeUInt32BE_at_0
          writeUInt16BE_at_4 writeUInt16LE_range)
  qed
qed

lemma unat_byte_of_int: "unat (word_of_int v :: byte) = nat (v mod 256)"
  by (simp add: unsigned_of_int take_bit_eq_mod)

lemma Buffer_from_utf8_ascii:
  "unat u < 0x80 \<Longrightarrow> Buffer_from_utf8 (u # us) = of_nat (unat u) # Buffer_from_utf8 us"
  by (cases us) (simp_all add: is_high_surrogate_def is_low_surrogate_def utf8_of_codepoint_def)

declare Buffer_from_utf8.simps(2,3) [simp del]

lemma Buffer_from_utf8_Hello: "Buffer_from_utf8 (js ''Hello'') = [0x48, 0x65, 0x6c, 0x6c, 0x6f]"
  by (simp add: js_def Buffer_from_utf8_ascii)

lemma Buffer_from_utf8_Test: "Buffer_from_utf8 (js ''Test'') = [0x54, 0x65, 0x73, 0x74]"
  by (simp add: js_def Buffer_from_utf8_ascii)

lemma Buffer_from_utf8_replicate_a:
  "Buffer_from_utf8 (js (replicate n CHR ''a'')) = replicate n 0x61"
  by (induction n) (simp_all add: js_def Buffer_from_utf8_ascii)

lemma buildMessage_Hello: "buildMessage 4128 1 (js ''Hello'') =
     Inr [0x00, 0x00, 0x10, 0x20, 0x00, 0x05, 0x01, 0x00, 0x48, 0x65, 0x6c, 0x6c, 0x6f]"
  by (simp add: buildMessage_bytes Buffer_from_utf8_Hello)

lemma buildMessage_Test: "buildMessage 5000 3 (js ''Test'') =
     Inr [0x00, 0x00, 0x13, 0x88, 0x00, 0x04, 0x03, 0x00, 0x54, 0x65, 0x73, 0x74]"
  by (simp add: buildMessage_bytes Buffer_from_utf8_Test)

lemma unat_byte_of_nat: "unat (word_of_nat n :: byte) = n mod 256"
  by (simp add: unat_of_nat)

lemma header_byte_values:
  assumes "0 \<le> mid" "mid < 2 ^ 32" "0 \<le> fl" "fl < 2 ^ 16" "n \<le> 65535"
  shows "map unat [word_of_int (mid div 2 ^ 24), word_of_int (mid div 2 ^ 16),
                   word_of_int (mid div 2 ^ 8), word_of_int mid :: byte] =
           [nat mid div 2 ^ 24, nat mid div 2 ^ 16 mod 256, nat mid div 2 ^ 8 mod 256, nat mid mod 256]"
    and "map unat [word_of_int (int n div 2 ^ 8), word_of_int (int n) :: byte] = [n div 2 ^ 8, n mod 256]"
    and "map unat [word_of_int fl, word_of_int (fl div 2 ^ 8) :: byte] = [nat fl mod 256, nat fl div 2 ^ 8]"
proof -
  from assms have r: "0 \<le> mid" "mid < 4294967296" "0 \<le> fl" "fl < 65536" "n < 65536"
    by simp_all
  then have "nat mid < 4294967296" "nat fl < 65536"
    by simp_all
  with r have s: "nat mid div 16777216 < 256" "nat fl div 256 < 256" "n div 256 < 256"
    by simp_all
  with r have "nat (mid div 16777216 mod 256) = nat mid div 16777216"
          "nat (mid div 65536 mod 256) = nat mid div 65536 mod 256"
          "nat (mid div 256 mod 256) = nat mid div 256 mod 256"
          "nat (mid mod 256) = nat mid mod 256"
    by (simp_all add: nat_div_distrib nat_mod_distrib pos_imp_zdiv_nonneg_iff)
  then show "map unat [word_of_int (mid div 2 ^ 24), word_of_int (mid div 2 ^ 16),
                   word_of_int (mid div 2 ^ 8), word_of_int mid :: byte] =
           [nat mid div 2 ^ 24, nat mid div 2 ^ 16 mod 256, nat mid div 2 ^ 8 mod 256, nat mid mod 256]"
    by (simp add: unat_byte_of_int)
  from r s have "nat (fl mod 256) = nat fl mod 256" "nat (fl div 256 mod 256) = nat fl div 256"
    by (simp_all add: nat_div_distrib nat_mod_distrib pos_imp_zdiv_nonneg_iff)
  then show "map unat [word_of_int fl, word_of_int (fl div 2 ^ 8) :: byte] = [nat fl mod 256, nat fl div 2 ^ 8]"
    by (simp add: unat_byte_of_int)
  from s have "nat (int n div 256 mod 256) = n div 256"
    by (simp add: nat_div_distrib nat_mod_distrib pos_imp_zdiv_nonneg_iff)
  then show "map unat [word_of_int (int n div 2 ^ 8), word_of_int (int n) :: byte] = [n div 2 ^ 8, n mod 256]"
    by (simp add: unat_byte_of_int unat_byte_of_nat)
qed

text \<open>
  Claim C5. For \<open>messageId\<close> in \<open>[0, 2^32)\<close>, \<open>flags\<close> in \<open>[0, 2^16)\<close> and a payload of
  at most 65535 bytes, \<open>buildMessage\<close> returns a buffer of exactly \<open>8 + len(payload)\<close>
  bytes: the message id in bytes 0 to 3, most significant byte first; the payload length in
  bytes 4 and 5, most significant byte first; the flags in bytes 6 and 7, least
  significant byte first; the payload's bytes unchanged from offset 8. In particular
  \<open>buildMessage(4128, 1, "Hello")\<close> is \<open>00 00 10 20 00 05 01 00 48 65 6c 6c 6f\<close>. (The buffer
  is a value here; that it is newly allocated is \<open>Buffer.alloc\<close> in the source.)
\<close>

theorem buildMessage_layout:
  "(0 \<le> mid \<and> mid < 2 ^ 32 \<and> 0 \<le> fl \<and> fl < 2 ^ 16 \<and> length (Buffer_from_utf8 pl) \<le> 65535 \<longrightarrow>
     (\<exists>b. buildMessage mid fl pl = Inr b
        \<and> length b = 8 + length (Buffer_from_utf8 pl)
        \<and> map unat (take 4 b) =
            [nat mid div 2 ^ 24, nat mid div 2 ^ 16 mod 256, nat mid div 2 ^ 8 mod 256, nat mid mod 256]
        \<and> map unat (take 2 (drop 4 b)) =
            [length (Buffer_from_utf8 pl) div 2 ^ 8, length (Buffer_from_utf8 pl) mod 256]
        \<and> map unat (take 2 (drop 6 b)) = [nat fl mod 256, nat fl div 2 ^ 8]
        \<and> drop 8 b = Buffer_from_utf8 pl))
   \<and> buildMessage 4128 1 (js ''Hello'') =
       Inr [0x00, 0x00, 0x10, 0x20, 0x00, 0x05, 0x01, 0x00, 0x48, 0x65, 0x6c, 0x6c, 0x6f]"
proof (intro conjI impI)
  assume a: "0 \<le> mid \<and> mid < 2 ^ 32 \<and> 0 \<le> fl \<and> fl < 2 ^ 16 \<and> length (Buffer_from_utf8 pl) \<le> 65535"
  let ?n = "length (Buffer_from_utf8 pl)"
  let ?m = "[word_of_int (mid div 2 ^ 24), word_of_int (mid div 2 ^ 16),
             word_of_int (mid div 2 ^ 8), word_of_int mid :: byte]"
  let ?l = "[word_of_int (int ?n div 2 ^ 8), word_of_int (int ?n) :: byte]"
  let ?f = "[word_of_int fl, word_of_int (fl div 2 ^ 8) :: byte]"
  let ?b = "?m @ ?l @ ?f @ Buffer_from_utf8 pl"
  from a have r: "0 \<le> mid" "mid < 2 ^ 32" "0 \<le> fl" "fl < 2 ^ 16" "?n \<le> 65535"
    by simp_all
  have parts: "take 4 ?b = ?m" "take 2 (drop 4 ?b) = ?l" "take 2 (drop 6 ?b) = ?f"
    "drop 8 ?b = Buffer_from_utf8 pl" "length ?b = 8 + ?n"
    by simp_all
  have bm: "buildMessage mid fl pl = Inr ?b"
    using buildMessage_bytes [OF r] by simp
  note hv = header_byte_values [OF r]
  show "\<exists>b. buildMessage mid fl pl = Inr b
        \<and> length b = 8 + length (Buffer_from_utf8 pl)
        \<and> map unat (take 4 b) =
            [nat mid div 2 ^ 24, nat mid div 2 ^ 16 mod 256, nat mid div 2 ^ 8 mod 256, nat mid mod 256]
        \<and> map unat (take 2 (drop 4 b)) =
            [length (Buffer_from_utf8 pl) div 2 ^ 8, length (Buffer_from_utf8 pl) mod 256]
        \<and> map unat (take 2 (drop 6 b)) = [nat fl mod 256, nat fl div 2 ^ 8]
        \<and> drop 8 b = Buffer_from_utf8 pl"
  proof (intro exI [of _ ?b] conjI)
    show "buildMessage mid fl pl = Inr ?b" by (rule bm)
    show "length ?b = 8 + ?n" by (rule parts(5))
    show "map unat (take 4 ?b) =
            [nat mid div 2 ^ 24, nat mid div 2 ^ 16 mod 256, nat mid div 2 ^ 8 mod 256, nat mid mod 256]"
      unfolding parts(1) by (rule hv(1))
    show "map unat (take 2 (drop 4 ?b)) = [?n div 2 ^ 8, ?n mod 256]"
      unfolding parts(2) by (rule hv(2))
    show "map unat (take 2 (drop 6 ?b)) = [nat fl mod 256, nat fl div 2 ^ 8]"
      unfolding parts(3) by (rule hv(3))
    show "drop 8 ?b = Buffer_from_utf8 pl" by (rule parts(4))
  qed
next
  show "buildMessage 4128 1 (js ''Hello'') =
       Inr [0x00, 0x00, 0x10, 0x20, 0x00, 0x05, 0x01, 0x00, 0x48, 0x65, 0x6c, 0x6c, 0x6f]"
    by (rule buildMessage_Hello)
qed

text \<open>
  The instance of the layout at \<open>buildMessage(5000, 3, "Test")\<close>, whose hypotheses hold.
\<close>

theorem buildMessage_layout_witness:
  "(0 :: int) \<le> 5000 \<and> (5000 :: int) < 2 ^ 32 \<and> (0 :: int) \<le> 3 \<and> (3 :: int) < 2 ^ 16
   \<and> length (Buffer_from_utf8 (js ''Test'')) \<le> 65535
   \<and> (\<exists>b. buildMessage 5000 3 (js ''Test'') = Inr b
        \<and> length b = 12
        \<and> map unat (take 4 b) = [0, 0, 19, 136]
        \<and> map unat (take 2 (drop 4 b)) = [0, 4]
        \<and> map unat (take 2 (drop 6 b)) = [3, 0]
        \<and> drop 8 b = [0x54, 0x65, 0x73, 0x74])"
  using buildMessage_layout [of 5000 3 "js ''Test''"]
  by (simp add: Buffer_from_utf8_Test)

text \<open>
  Claim C6, as stated: a payload of more than 65535 bytes makes the encoder fail with a
  distinct error \<open>PayloadTooLarge\<close>. A payload of 65536 bytes makes \<open>buildMessage\<close> fail with
  the \<open>RangeError\<close> \<open>ERR_OUT_OF_RANGE\<close> of \<open>writeUInt16BE\<close>, which is also what an
  out-of-range \<open>flags\<close> gives.
\<close>

theorem payload_too_large_error:
  "length (Buffer_from_utf8 (js (replicate 65536 CHR ''a''))) = 65536
   \<and> buildMessage 0 0 (js (replicate 65536 CHR ''a'')) = Inl ERR_OUT_OF_RANGE
   \<and> buildMessage 0 0 (js (replicate 65536 CHR ''a'')) \<noteq> Inl PayloadTooLarge
   \<and> buildMessage 0 65536 [] = Inl ERR_OUT_OF_RANGE"
  by (simp add: buildMessage_out_of_range Buffer_from_utf8_replicate_a)

text \<open>
  Claim C6, amended: for every payload of more than 65535 bytes, whatever \<open>messageId\<close> and
  \<open>flags\<close> are, \<open>buildMessage\<close> fails with \<open>ERR_OUT_OF_RANGE\<close> and returns no buffer.
\<close>

theorem buildMessage_payload_too_large:
  "65535 < length (Buffer_from_utf8 pl) \<Longrightarrow> buildMessage mid fl pl = Inl ERR_OUT_OF_RANGE"
  by (simp add: buildMessage_out_of_range)

theorem buildMessage_payload_too_large_witness:
  "65535 < length (Buffer_from_utf8 (js (replicate 70000 CHR ''a'')))
   \<and> buildMessage 7 1 (js (replicate 70000 CHR ''a'')) = Inl ERR_OUT_OF_RANGE"
  using buildMessage_payload_too_large [of "js (replicate 70000 CHR ''a'')" 7 1]
  by (simp add: Buffer_from_utf8_replicate_a)

text \<open>
  Claim C7, as stated: an out-of-range \<open>messageId\<close> or \<open>flags\<close> is rejected with a distinct
  error \<open>FieldOverflow\<close>. The value is rejected, by the range check of
  \<open>writeUInt32BE\<close> or \<open>writeUInt16LE\<close>, and the error is \<open>ERR_OUT_OF_RANGE\<close>.
\<close>

theorem field_overflow_error:
  "buildMessage 4294967296 0 [] = Inl ERR_OUT_OF_RANGE
   \<and> buildMessage 4294967296 0 [] \<noteq> Inl FieldOverflow
   \<and> buildMessage 0 65536 [] = Inl ERR_OUT_OF_RANGE
   \<and> buildMessage 0 65536 [] \<noteq> Inl FieldOverflow
   \<and> buildMessage (- 1) 0 [] = Inl ERR_OUT_OF_RANGE"
  by (simp add: buildMessage_out_of_range)

text \<open>
  Claim C7, amended: for every integer \<open>messageId\<close> outside \<open>[0, 2^32)\<close> or \<open>flags\<close> outside
  \<open>[0, 2^16)\<close>, whatever the payload, \<open>buildMessage\<close> fails with \<open>ERR_OUT_OF_RANGE\<close>; no
  wrapped or truncated value is encoded.
\<close>

theorem buildMessage_field_out_of_range:
  "mid < 0 \<or> 2 ^ 32 \<le> mid \<or> fl < 0 \<or> 2 ^ 16 \<le> fl \<Longrightarrow> buildMessage mid fl pl = Inl ERR_OUT_OF_RANGE"
  by (rule buildMessage_out_of_range) auto

theorem buildMessage_field_out_of_range_witness:
  "((5000000000 :: int) < 0 \<or> 2 ^ 32 \<le> (5000000000 :: int) \<or> (3 :: int) < 0 \<or> 2 ^ 16 \<le> (3 :: int))
   \<and> buildMessage 5000000000 3 (js ''Test'') = Inl ERR_OUT_OF_RANGE"
  using buildMessage_field_out_of_range [of 5000000000 3 "js ''Test''"] by simp

section \<open>The decoder after the encoder\<close>

text \<open>
  Claim C1 asks that decoding the encoder's output gives back the fields, and in
  particular that \<open>buildMessage(5000, 3, "Test")\<close> decodes to message id 5000, length 4,
  flags 3 and payload \<open>Test\<close>. The encoder's bytes are right; \<open>parseMessage\<close> applied to
  them returns the fields of \<open>binaryMessage\<close> instead.
\<close>

theorem roundtrip_Test_fails:
  "buildMessage 5000 3 (js ''Test'') =
     Inr [0x00, 0x00, 0x13, 0x88, 0x00, 0x04, 0x03, 0x00, 0x54, 0x65, 0x73, 0x74]
   \<and> parseMessage [0x00, 0x00, 0x13, 0x88, 0x00, 0x04, 0x03, 0x00, 0x54, 0x65, 0x73, 0x74] =
     Inr \<lparr>messageId = 4128, length_field = 5, flags = 1, payload = js ''Hello''\<rparr>
   \<and> parseMessage [0x00, 0x00, 0x13, 0x88, 0x00, 0x04, 0x03, 0x00, 0x54, 0x65, 0x73, 0x74] \<noteq>
     Inr \<lparr>messageId = 5000, length_field = 4, flags = 3, payload = js ''Test''\<rparr>"
  by (simp add: buildMessage_Test parseMessage_value)

subsection \<open>The steps of the decoder on a buffer\<close>












section \<open>The hexdump\<close>

subsection \<open>The lines of the loop\<close>

lemma lines_step: "0 < d \<Longrightarrow> (d + 15) div 16 = Suc ((d - 16 + 15) div 16)"
proof (cases "16 \<le> d")
  case True
  then obtain e where "d = e + 16" by (metis le_add_diff_inverse2)
  then show ?thesis by simp
next
  case False
  assume "0 < d"
  with False have "(d + 15) div 16 = 1" by (intro div_nat_eqI) simp_all
  with False show ?thesis by simp
qed

lemma lines_zero: "(d + 15) div 16 = 0 \<longleftrightarrow> d = (0::nat)"
  by (simp add: div_eq_0_iff)

lemma hexdump_from_lines:
  "(length buf - off + 15) div 16 = n \<Longrightarrow>
   hexdump_from buf off = map (\<lambda>k. print_line (off + 16 * k) (slice buf (off + 16 * k) (off + 16 * k + 16))) [0..<n]"
proof (induction n arbitrary: off)
  case 0
  then have "\<not> off < length buf" by (simp add: lines_zero)
  then show ?case by (subst hexdump_from.simps) simp
next
  case (Suc n)
  have lt: "off < length buf"
  proof (rule ccontr)
    assume "\<not> off < length buf"
    then have "length buf - off = 0" by simp
    with Suc.prems show False by simp
  qed
  then have "0 < length buf - off" by simp
  from lines_step [OF this] Suc.prems have "(length buf - (off + 16) + 15) div 16 = n"
    by simp
  from Suc.IH [OF this] have "hexdump_from buf (off + 16) =
     map (\<lambda>k. print_line (off + 16 * Suc k) (slice buf (off + 16 * Suc k) (off + 16 * Suc k + 16))) [0..<n]"
    by (simp add: add.assoc)
  with lt show ?case
    by (subst hexdump_from.simps) (simp add: map_upt_Suc bytesPerLine_def del: upt_Suc)
qed

lemma chunks_concat:
  "(length buf - off + 15) div 16 = n \<Longrightarrow>
   concat (map (\<lambda>k. slice buf (off + 16 * k) (off + 16 * k + 16)) [0..<n]) = drop off buf"
proof (induction n arbitrary: off)
  case 0
  then have "\<not> off < length buf" by (simp add: lines_zero)
  then show ?case by simp
next
  case (Suc n)
  have lt: "off < length buf"
  proof (rule ccontr)
    assume "\<not> off < length buf"
    then have "length buf - off = 0" by simp
    with Suc.prems show False by simp
  qed
  then have "0 < length buf - off" by simp
  from lines_step [OF this] Suc.prems have "(length buf - (off + 16) + 15) div 16 = n"
    by simp
  from Suc.IH [OF this] have "concat (map (\<lambda>k. slice buf (off + 16 * Suc k) (off + 16 * Suc k + 16)) [0..<n]) = drop (off + 16) buf"
    by (simp add: add.assoc)
  moreover have "slice buf off (off + 16) @ drop (off + 16) buf
      = take 16 (drop off buf) @ drop 16 (drop off buf)"
    by (simp add: slice_def add.commute)
  then have "slice buf off (off + 16) @ drop (off + 16) buf = drop off buf"
    by (simp only: append_take_drop_id)
  ultimately show ?case
    by (simp add: map_upt_Suc del: upt_Suc)
qed

lemma hexdump_lines:
  "hexdump buf = map (\<lambda>k. print_line (16 * k) (slice buf (16 * k) (16 * k + 16)))
                     [0..<(length buf + 15) div 16]"
  using hexdump_from_lines [of buf 0 "(length buf + 15) div 16"] by (simp add: hexdump_def)

lemma slice_length: "length (slice buf s (s + 16)) = min 16 (length buf - s)"
  by (simp add: slice_def min.commute)

lemma hexdump_length: "length (hexdump buf) = (length buf + 15) div 16"
  by (simp add: hexdump_lines)

lemma hexdump_nth:
  "k < (length buf + 15) div 16 \<Longrightarrow>
   hexdump buf ! k = print_line (16 * k) (slice buf (16 * k) (16 * k + 16))"
  by (simp add: hexdump_lines)

lemma slice_nonempty:
  assumes "k < (length buf + 15) div 16"
  shows "slice buf (16 * k) (16 * k + 16) \<noteq> []" and "length (slice buf (16 * k) (16 * k + 16)) \<le> 16"
proof -
  from assms have "16 * k < length buf" by arith
  then show "slice buf (16 * k) (16 * k + 16) \<noteq> []" by (simp add: slice_def)
  show "length (slice buf (16 * k) (16 * k + 16)) \<le> 16" by (simp add: slice_def)
qed

lemma slice_20: "slice (replicate 20 x) 16 32 = [x, x, x, x]"
  by (simp add: slice_def numeral_eq_Suc)

text \<open>
  Claim C8. \<open>hexdump\<close> prints \<open>ceil(len(buffer) / 16)\<close> lines, which is
  \<open>(len + 15) div 16\<close>: the least number of 16-byte chunks that cover the buffer. Line \<open>k\<close>
  is the line of the chunk \<open>buf.slice(16 k, 16 k + 16)\<close>; the chunks, in this order, make up
  the buffer; each holds 16 bytes, the last one what is left, at least one byte. An empty
  buffer gives no line.
\<close>

theorem hexdump_line_count:
  "length (hexdump buf) = (length buf + 15) div 16
   \<and> length buf \<le> 16 * length (hexdump buf) \<and> 16 * length (hexdump buf) < length buf + 16
   \<and> hexdump buf = map (\<lambda>k. print_line (16 * k) (slice buf (16 * k) (16 * k + 16)))
                        [0..<(length buf + 15) div 16]
   \<and> concat (map (\<lambda>k. slice buf (16 * k) (16 * k + 16)) [0..<(length buf + 15) div 16]) = buf
   \<and> (\<forall>k<(length buf + 15) div 16.
         length (slice buf (16 * k) (16 * k + 16)) = min 16 (length buf - 16 * k)
         \<and> 0 < length (slice buf (16 * k) (16 * k + 16)))
   \<and> hexdump [] = []"
proof (intro conjI allI impI)
  show "length (hexdump buf) = (length buf + 15) div 16" by (rule hexdump_length)
  show "length buf \<le> 16 * length (hexdump buf)" unfolding hexdump_length by arith
  show "16 * length (hexdump buf) < length buf + 16" unfolding hexdump_length by arith
  show "hexdump buf = map (\<lambda>k. print_line (16 * k) (slice buf (16 * k) (16 * k + 16)))
                        [0..<(length buf + 15) div 16]" by (rule hexdump_lines)
  show "concat (map (\<lambda>k. slice buf (16 * k) (16 * k + 16)) [0..<(length buf + 15) div 16]) = buf"
    using chunks_concat [of buf 0 "(length buf + 15) div 16"] by simp
  show "hexdump [] = []" by (simp add: hexdump_lines)
next
  fix k assume "k < (length buf + 15) div 16"
  then show "0 < length (slice buf (16 * k) (16 * k + 16))"
    using slice_nonempty(1) [of k buf] by simp
next
  fix k
  show "length (slice buf (16 * k) (16 * k + 16)) = min 16 (length buf - 16 * k)"
    by (rule slice_length)
qed

text \<open>
  The instance for a buffer of 20 bytes: two lines, the second for a chunk of 4 bytes.
\<close>

theorem hexdump_line_count_witness:
  "(1 :: nat) < (length (replicate 20 (0x41 :: byte)) + 15) div 16
   \<and> length (hexdump (replicate 20 0x41)) = 2
   \<and> length (slice (replicate 20 (0x41 :: byte)) 16 32) = 4"
proof -
  note t = hexdump_line_count [of "replicate 20 0x41"]
  from t have a: "length (hexdump (replicate 20 0x41)) = (length (replicate 20 (0x41 :: byte)) + 15) div 16"
    by (rule conjunct1)
  from t have "\<forall>k<(length (replicate 20 (0x41 :: byte)) + 15) div 16.
         length (slice (replicate 20 (0x41 :: byte)) (16 * k) (16 * k + 16)) = min 16 (length (replicate 20 (0x41 :: byte)) - 16 * k)
         \<and> 0 < length (slice (replicate 20 (0x41 :: byte)) (16 * k) (16 * k + 16))"
    by blast
  moreover have b: "(1 :: nat) < (length (replicate 20 (0x41 :: byte)) + 15) div 16" by simp
  ultimately have "length (slice (replicate 20 (0x41 :: byte)) (16 * 1) (16 * 1 + 16)) = min 16 (length (replicate 20 (0x41 :: byte)) - 16 * 1)"
    by blast
  with a b show ?thesis by simp
qed

subsection \<open>The columns of a line\<close>

lemma less_16_cases:
  "d < 16 \<Longrightarrow> d = 0 \<or> d = 1 \<or> d = 2 \<or> d = 3 \<or> d = 4 \<or> d = 5 \<or> d = 6 \<or> d = 7
     \<or> d = 8 \<or> d = 9 \<or> d = 10 \<or> d = 11 \<or> d = 12 \<or> d = 13 \<or> d = 14 \<or> d = (15::nat)"
  by arith

lemma hex_digit_value: "d < 16 \<Longrightarrow> spec_hex_digit_value (hex_digit d) = Some d"
  by (drule less_16_cases) (elim disjE; simp add: hex_digit_def spec_hex_digit_value_def)

lemma hex_digit_lower: "d < 16 \<Longrightarrow> hex_digit d \<in> set ''0123456789abcdef''"
  unfolding hex_digit_def by (rule nth_mem) simp

lemma hex_digit_not_space: "d < 16 \<Longrightarrow> hex_digit d \<noteq> CHR '' ''"
  by (drule less_16_cases) (elim disjE; simp add: hex_digit_def)

lemma toString16_small: "n < 16 \<Longrightarrow> toString16 n = [hex_digit n]"
  by (subst toString16.simps) simp

lemma toString16_large: "16 \<le> n \<Longrightarrow> toString16 n = toString16 (n div 16) @ [hex_digit (n mod 16)]"
  by (subst toString16.simps) simp

lemma toString16_nonempty: "toString16 n \<noteq> []"
  by (cases "n < 16") (simp_all add: toString16_small toString16_large)

lemma toString16_digits: "c \<in> set (toString16 n) \<Longrightarrow> \<exists>d<16. c = hex_digit d"
proof (induction n rule: toString16.induct)
  case (1 n)
  show ?case
  proof (cases "n < 16")
    case True
    with "1.prems" show ?thesis by (auto simp add: toString16_small)
  next
    case False
    then have "toString16 n = toString16 (n div 16) @ [hex_digit (n mod 16)]"
      by (simp add: toString16_large)
    with "1.prems" have "c \<in> set (toString16 (n div 16)) \<or> c = hex_digit (n mod 16)"
      by auto
    then show ?thesis
    proof
      assume "c \<in> set (toString16 (n div 16))"
      with False "1.IH" show ?thesis by simp
    next
      assume "c = hex_digit (n mod 16)"
      moreover have "n mod 16 < 16" by simp
      ultimately show ?thesis by blast
    qed
  qed
qed

lemma spec_parse_hex_acc_append:
  "spec_parse_hex_acc a (s @ t) =
     (case spec_parse_hex_acc a s of None \<Rightarrow> None | Some b \<Rightarrow> spec_parse_hex_acc b t)"
  by (induction s arbitrary: a) (simp_all split: option.split)

lemma spec_parse_hex_acc_toString16: "spec_parse_hex_acc 0 (toString16 n) = Some n"
proof (induction n rule: toString16.induct)
  case (1 n)
  show ?case
  proof (cases "n < 16")
    case True
    then show ?thesis by (simp add: toString16_small hex_digit_value)
  next
    case False
    with "1.IH" have "spec_parse_hex_acc 0 (toString16 (n div 16)) = Some (n div 16)" by simp
    moreover have "n mod 16 < 16" by simp
    ultimately show ?thesis using False
      by (simp add: toString16_large spec_parse_hex_acc_append hex_digit_value)
  qed
qed

lemma spec_parse_hex_acc_zeros:
  "spec_parse_hex_acc 0 (replicate k CHR ''0'' @ s) = spec_parse_hex_acc 0 s"
  by (induction k) (simp_all add: spec_hex_digit_value_def)

lemma length_toString16_le: "n < 16 ^ k \<Longrightarrow> 0 < k \<Longrightarrow> length (toString16 n) \<le> k"
proof (induction k arbitrary: n)
  case 0
  then show ?case by simp
next
  case (Suc k)
  show ?case
  proof (cases "n < 16")
    case True
    then show ?thesis by (simp add: toString16_small)
  next
    case False
    with Suc.prems have "0 < k" by (cases k) simp_all
    moreover from Suc.prems have "n div 16 < 16 ^ k"
      by (simp add: less_mult_imp_div_less mult.commute)
    ultimately have "length (toString16 (n div 16)) \<le> k" by (rule Suc.IH [rotated])
    with False show ?thesis by (simp add: toString16_large)
  qed
qed

lemma length_toString16_gt: "16 ^ k \<le> n \<Longrightarrow> k < length (toString16 n)"
proof (induction k arbitrary: n)
  case 0
  then show ?case using toString16_nonempty [of n] by (cases "toString16 n") simp_all
next
  case (Suc k)
  then have "16 * 16 ^ k \<le> n" by simp
  then have "16 ^ k \<le> n div 16" by (simp add: less_eq_div_iff_mult_less_eq mult.commute)
  then have "k < length (toString16 (n div 16))" by (rule Suc.IH)
  moreover from Suc.prems have "16 \<le> n"
    by (metis One_nat_def Suc_leI le_trans mult.right_neutral mult_le_mono2 power_Suc zero_less_numeral zero_less_power)
  ultimately show ?case by (simp add: toString16_large)
qed

lemma concat_replicate_single: "concat (replicate m [c]) = replicate m c"
  by (induction m) simp_all

lemma padStart_zero: "padStart s n ''0'' = replicate (n - length s) CHR ''0'' @ s"
  by (simp add: padStart_def concat_replicate_single)

lemma padEnd_space: "padEnd s n '' '' = s @ replicate (n - length s) CHR '' ''"
  by (simp add: padEnd_def concat_replicate_single)

lemma hex_digit_0: "hex_digit 0 = CHR ''0''"
  by (simp add: hex_digit_def)

lemma length_toString16_byte: "length (toString16 (unat (b :: byte))) \<le> 2"
proof -
  have "unat b < 2 ^ LENGTH(8)" by (rule unsigned_less)
  then have "unat b < 16 ^ 2" by simp
  then show ?thesis by (rule length_toString16_le) simp
qed

lemma padStart_length: "length (padStart s n ''0'') = max n (length s)"
  by (simp add: padStart_zero)

lemma byte_hex_length: "length (padStart (toString16 (unat (b :: byte))) 2 ''0'') = 2"
  using length_toString16_byte [of b] by (simp add: padStart_length)

lemma padStart_parse: "spec_parse_hex (padStart (toString16 n) k ''0'') = Some n"
  using toString16_nonempty [of n]
  by (simp add: spec_parse_hex_def padStart_zero spec_parse_hex_acc_zeros spec_parse_hex_acc_toString16)

lemma padStart_digits:
  "c \<in> set (padStart (toString16 n) k ''0'') \<Longrightarrow> \<exists>d<16. c = hex_digit d"
proof -
  assume "c \<in> set (padStart (toString16 n) k ''0'')"
  then have "c = CHR ''0'' \<or> c \<in> set (toString16 n)"
    by (auto simp add: padStart_zero)
  then show ?thesis
  proof
    assume "c = CHR ''0''"
    then have "c = hex_digit 0" by (simp add: hex_digit_0)
    then show ?thesis by (intro exI [of _ 0]) simp
  next
    assume "c \<in> set (toString16 n)"
    then show ?thesis by (rule toString16_digits)
  qed
qed

lemma padStart_lower_hex: "spec_is_lower_hex (padStart (toString16 n) k ''0'')"
  unfolding spec_is_lower_hex_def
proof
  fix c assume "c \<in> set (padStart (toString16 n) k ''0'')"
  then obtain d where "d < 16" "c = hex_digit d" using padStart_digits by blast
  then show "c \<in> set ''0123456789abcdef''" using hex_digit_lower by blast
qed

lemma padStart_no_space: "CHR '' '' \<notin> set (padStart (toString16 n) k ''0'')"
proof
  assume "CHR '' '' \<in> set (padStart (toString16 n) k ''0'')"
  then obtain d where "d < 16" "CHR '' '' = hex_digit d" using padStart_digits by blast
  then show False using hex_digit_not_space [of d] by simp
qed

lemma offset_length_4: "length (padStart (toString16 off) 4 ''0'') = 4 \<longleftrightarrow> off < 65536"
proof
  assume l: "length (padStart (toString16 off) 4 ''0'') = 4"
  show "off < 65536"
  proof (rule ccontr)
    assume "\<not> off < 65536"
    then have "16 ^ 4 \<le> off" by simp
    then have "4 < length (toString16 off)" by (rule length_toString16_gt)
    with l show False by (simp add: padStart_length)
  qed
next
  assume "off < 65536"
  then have "off < 16 ^ 4" by simp
  then have "length (toString16 off) \<le> 4" by (rule length_toString16_le) simp
  then show "length (padStart (toString16 off) 4 ''0'') = 4" by (simp add: padStart_length)
qed

lemma join_nil: "join [] xs = concat xs"
  by (induction "[] :: string" xs rule: join.induct) simp_all

lemma join_Cons: "xs \<noteq> [] \<Longrightarrow> join sep (x # xs) = x @ sep @ join sep xs"
  by (cases xs) simp_all

lemma join_length:
  "\<forall>x\<in>set xs. length x = 2 \<Longrightarrow> xs \<noteq> [] \<Longrightarrow> Suc (length (join '' '' xs)) = 3 * length xs"
proof (induction xs)
  case Nil
  then show ?case by simp
next
  case (Cons x xs)
  then show ?case by (cases "xs = []") (simp_all add: join_Cons)
qed

lemma spec_split_token:
  "CHR '' '' \<notin> set t \<Longrightarrow> spec_split_acc cur (t @ r) = spec_split_acc (cur @ t) r"
  by (induction t arbitrary: cur) auto

lemma spec_split_spaces:
  "spec_split_acc cur (replicate m CHR '' '') = (if cur = [] then [] else [cur])"
proof (induction m arbitrary: cur)
  case 0
  show ?case by simp
next
  case (Suc m)
  have "spec_split_acc [] (replicate m CHR '' '') = []" by (simp add: Suc.IH)
  then show ?case by simp
qed

lemma spec_split_join:
  "\<forall>t\<in>set toks. t \<noteq> [] \<and> CHR '' '' \<notin> set t \<Longrightarrow>
   spec_split_acc [] (join '' '' toks @ replicate m CHR '' '') = toks"
proof (induction toks)
  case Nil
  show ?case by (simp add: spec_split_spaces)
next
  case (Cons x xs)
  then have x: "x \<noteq> []" "CHR '' '' \<notin> set x" by simp_all
  show ?case
  proof (cases "xs = []")
    case True
    with x show ?thesis
      using spec_split_token [of x "[]" "replicate m CHR '' ''"]
      by (simp add: spec_split_spaces)
  next
    case False
    from Cons have "spec_split_acc [] (join '' '' xs @ replicate m CHR '' '') = xs" by simp
    with x False show ?thesis
      using spec_split_token [of x "[]" "CHR '' '' # join '' '' xs @ replicate m CHR '' ''"]
      by (simp add: join_Cons)
  qed
qed

lemma hex_length: "line \<noteq> [] \<Longrightarrow> Suc (length (hex line)) = 3 * length line"
  unfolding hex_def using join_length [of "map (\<lambda>b. padStart (toString16 (unat b)) 2 ''0'') line"]
  by (simp add: byte_hex_length)

lemma hex_column_length:
  "line \<noteq> [] \<Longrightarrow> length line \<le> 16 \<Longrightarrow> length (padEnd (hex line) (bytesPerLine * 3) '' '') = 48"
  using hex_length [of line] by (simp add: padEnd_space bytesPerLine_def)

lemma hex_column_parse:
  "spec_parse_hex_column (padEnd (hex line) (bytesPerLine * 3) '' '') = map (\<lambda>b. Some (unat b)) line"
proof -
  let ?toks = "map (\<lambda>b. padStart (toString16 (unat b)) 2 ''0'') line"
  have "\<forall>t\<in>set ?toks. t \<noteq> [] \<and> CHR '' '' \<notin> set t"
  proof
    fix t assume "t \<in> set ?toks"
    then obtain b :: byte where t: "t = padStart (toString16 (unat b)) 2 ''0''" by auto
    then have "length t = 2" by (simp add: byte_hex_length)
    then have "t \<noteq> []" by auto
    with t show "t \<noteq> [] \<and> CHR '' '' \<notin> set t" by (simp add: padStart_no_space)
  qed
  then have "spec_split_whitespace (padEnd (hex line) (bytesPerLine * 3) '' '') = ?toks"
    by (simp add: spec_split_whitespace_def padEnd_space hex_def spec_split_join)
  then show ?thesis
    by (simp add: spec_parse_hex_column_def padStart_parse comp_def)
qed

lemma ascii_chars:
  "ascii line = map (\<lambda>b. if 32 \<le> unat b \<and> unat b \<le> 126 then char_of (unat b) else CHR ''.'') line"
  by (induction line) (simp_all add: ascii_def join_nil)

lemma print_line_columns:
  "print_line offset line =
     padStart (toString16 offset) 4 ''0'' @ ''    ''
       @ padEnd (hex line) (bytesPerLine * 3) '' '' @ ''   '' @ ascii line"
  by (simp add: print_line_def console_log_def)

lemma hex_tokens:
  "list_all (\<lambda>t. length t = 2 \<and> spec_is_lower_hex t)
     (map (\<lambda>b. padStart (toString16 (unat b)) 2 ''0'') (line :: buffer))"
  by (simp add: list_all_iff byte_hex_length padStart_lower_hex)

lemma hex_column_padding:
  "line \<noteq> [] \<Longrightarrow> length line \<le> 16 \<Longrightarrow>
   padEnd (hex line) (bytesPerLine * 3) '' '' = hex line @ replicate (49 - 3 * length line) CHR '' ''"
  using hex_length [of line] by (simp add: padEnd_space bytesPerLine_def)

lemma toString16_65536: "toString16 65536 = ''10000''"
  by (simp add: toString16_large toString16_small hex_digit_def)

lemma toString16_16: "toString16 16 = ''10''"
  by (simp add: toString16_large toString16_small hex_digit_def)

lemma toString16_0: "toString16 0 = ''0''"
  by (simp add: toString16_small hex_digit_def)

lemma toString16_65: "toString16 65 = ''41''"
  by (simp add: toString16_large toString16_small hex_digit_def)

lemma print_line_65536:
  "print_line 65536 [0] = ''10000'' @ ''    '' @ (''00'' @ replicate 46 CHR '' '') @ ''   '' @ ''.''"
  by (simp add: print_line_columns toString16_65536 toString16_0 padStart_zero padEnd_space
      hex_def ascii_chars bytesPerLine_def)

lemma char_of_65: "char_of (65 :: nat) = CHR ''A''"
  by code_simp

text \<open>
  Claim C9, as stated, has the offset of every line as a 4-digit string. The line at
  offset 65536 of a buffer of 65537 bytes starts with the five digits \<open>10000\<close>:
  \<open>padStart(4, "0")\<close> pads to four characters and cuts nothing.
\<close>

theorem hexdump_offset_five_digits:
  "4096 < length (hexdump (replicate 65537 0))
   \<and> hexdump (replicate 65537 0) ! 4096 =
       ''10000'' @ ''    '' @ (''00'' @ replicate 46 CHR '' '') @ ''   '' @ ''.''
   \<and> length (padStart (toString16 (16 * 4096)) 4 ''0'') = 5"
proof (intro conjI)
  show "4096 < length (hexdump (replicate 65537 0))" by (simp add: hexdump_length)
  have "slice (replicate 65537 0) (16 * 4096) (16 * 4096 + 16) = [0]"
    by (simp add: slice_def)
  moreover have "hexdump (replicate 65537 0) ! 4096 =
      print_line (16 * 4096) (slice (replicate 65537 0) (16 * 4096) (16 * 4096 + 16))"
    by (rule hexdump_nth) simp
  ultimately show "hexdump (replicate 65537 0) ! 4096 =
       ''10000'' @ ''    '' @ (''00'' @ replicate 46 CHR '' '') @ ''   '' @ ''.''"
    by (simp add: print_line_65536)
  show "length (padStart (toString16 (16 * 4096)) 4 ''0'') = 5"
    by (simp add: toString16_65536 padStart_zero)
qed

text \<open>
  Claim C9, amended. Line \<open>k\<close> of the hexdump of any buffer is the offset text, four
  spaces, the hex column, three spaces and the ASCII column, where, for the chunk
  \<open>buf.slice(16 k, 16 k + 16)\<close>:
  \<^item> the offset text is the offset \<open>16 k\<close> in lowercase hexadecimal, padded with zeros on
    the left to at least 4 digits, and to exactly 4 digits when the offset is below 65536
    (and only then);
  \<^item> the hex text has one 2-digit lowercase hexadecimal string per byte, whose value is the
    byte, the strings joined by single spaces; the hex column is this text padded with
    spaces to the width \<open>16 * 3\<close>;
  \<^item> the ASCII column has, for each byte \<open>b\<close>, the character \<open>chr(b)\<close> when
    \<open>32 \<le> b \<le> 126\<close> and a dot otherwise;
  \<^item> the hex column, split on whitespace and each part read as a hexadecimal number, gives
    the bytes of the chunk.
\<close>

theorem hexdump_line_format:
  "k < length (hexdump buf) \<Longrightarrow>
   hexdump buf ! k =
       padStart (toString16 (16 * k)) 4 ''0'' @ ''    ''
         @ padEnd (hex (slice buf (16 * k) (16 * k + 16))) (bytesPerLine * 3) '' '' @ ''   ''
         @ ascii (slice buf (16 * k) (16 * k + 16))
   \<and> spec_is_lower_hex (padStart (toString16 (16 * k)) 4 ''0'')
   \<and> spec_parse_hex (padStart (toString16 (16 * k)) 4 ''0'') = Some (16 * k)
   \<and> 4 \<le> length (padStart (toString16 (16 * k)) 4 ''0'')
   \<and> (length (padStart (toString16 (16 * k)) 4 ''0'') = 4 \<longleftrightarrow> 16 * k < 65536)
   \<and> hex (slice buf (16 * k) (16 * k + 16)) =
       join '' '' (map (\<lambda>b. padStart (toString16 (unat b)) 2 ''0'') (slice buf (16 * k) (16 * k + 16)))
   \<and> list_all (\<lambda>t. length t = 2 \<and> spec_is_lower_hex t)
         (map (\<lambda>b. padStart (toString16 (unat b)) 2 ''0'') (slice buf (16 * k) (16 * k + 16)))
   \<and> map spec_parse_hex
         (map (\<lambda>b. padStart (toString16 (unat b)) 2 ''0'') (slice buf (16 * k) (16 * k + 16)))
       = map (\<lambda>b. Some (unat b)) (slice buf (16 * k) (16 * k + 16))
   \<and> padEnd (hex (slice buf (16 * k) (16 * k + 16))) (bytesPerLine * 3) '' '' =
       hex (slice buf (16 * k) (16 * k + 16))
         @ replicate (49 - 3 * length (slice buf (16 * k) (16 * k + 16))) CHR '' ''
   \<and> length (padEnd (hex (slice buf (16 * k) (16 * k + 16))) (bytesPerLine * 3) '' '') = 16 * 3
   \<and> ascii (slice buf (16 * k) (16 * k + 16)) =
       map (\<lambda>b. if 32 \<le> unat b \<and> unat b \<le> 126 then char_of (unat b) else CHR ''.'')
         (slice buf (16 * k) (16 * k + 16))
   \<and> spec_parse_hex_column (padEnd (hex (slice buf (16 * k) (16 * k + 16))) (bytesPerLine * 3) '' '')
       = map (\<lambda>b. Some (unat b)) (slice buf (16 * k) (16 * k + 16))"
proof -
  assume "k < length (hexdump buf)"
  then have k: "k < (length buf + 15) div 16" by (simp add: hexdump_length)
  let ?line = "slice buf (16 * k) (16 * k + 16)"
  let ?off = "padStart (toString16 (16 * k)) 4 ''0''"
  let ?col = "padEnd (hex ?line) (bytesPerLine * 3) '' ''"
  note ne = slice_nonempty [OF k]
  have 1: "hexdump buf ! k = ?off @ ''    '' @ ?col @ ''   '' @ ascii ?line"
    using hexdump_nth [OF k] by (simp only: print_line_columns)
  have 2: "spec_is_lower_hex ?off" by (rule padStart_lower_hex)
  have 3: "spec_parse_hex ?off = Some (16 * k)" by (rule padStart_parse)
  have 4: "4 \<le> length ?off" by (simp add: padStart_length)
  have 5: "length ?off = 4 \<longleftrightarrow> 16 * k < 65536" by (rule offset_length_4)
  have 6: "hex ?line = join '' '' (map (\<lambda>b. padStart (toString16 (unat b)) 2 ''0'') ?line)"
    by (simp add: hex_def)
  have 7: "list_all (\<lambda>t. length t = 2 \<and> spec_is_lower_hex t)
         (map (\<lambda>b. padStart (toString16 (unat b)) 2 ''0'') ?line)" by (rule hex_tokens)
  have 8: "map spec_parse_hex (map (\<lambda>b. padStart (toString16 (unat b)) 2 ''0'') ?line)
       = map (\<lambda>b. Some (unat b)) ?line" by (simp add: padStart_parse comp_def)
  have 9: "?col = hex ?line @ replicate (49 - 3 * length ?line) CHR '' ''"
    using ne by (rule hex_column_padding)
  have 10: "length ?col = 16 * 3" using hex_column_length [OF ne] by simp
  have 11: "ascii ?line =
       map (\<lambda>b. if 32 \<le> unat b \<and> unat b \<le> 126 then char_of (unat b) else CHR ''.'') ?line"
    by (rule ascii_chars)
  have 12: "spec_parse_hex_column ?col = map (\<lambda>b. Some (unat b)) ?line"
    by (rule hex_column_parse)
  from 1 2 3 4 5 6 7 8 9 10 11 12 show ?thesis by blast
qed

text \<open>
  The instance for the second line of a buffer of 20 bytes \<open>A\<close>.
\<close>

theorem hexdump_line_format_witness:
  "1 < length (hexdump (replicate 20 0x41))
   \<and> hexdump (replicate 20 0x41) ! 1 =
       ''0010'' @ ''    '' @ (''41 41 41 41'' @ replicate 37 CHR '' '') @ ''   '' @ ''AAAA''
   \<and> spec_parse_hex_column (''41 41 41 41'' @ replicate 37 CHR '' '') = [Some 65, Some 65, Some 65, Some 65]"
proof -
  have h: "1 < length (hexdump (replicate 20 0x41))" by (simp add: hexdump_length)
  have s: "slice (replicate 20 (0x41 :: byte)) (16 * 1) (16 * 1 + 16) = [0x41, 0x41, 0x41, 0x41]"
    by (simp add: slice_20)
  have c: "padEnd (hex [0x41, 0x41, 0x41, 0x41]) (bytesPerLine * 3) '' '' = ''41 41 41 41'' @ replicate 37 CHR '' ''"
    by (simp add: hex_def toString16_65 padStart_zero padEnd_space bytesPerLine_def)
  have o: "padStart (toString16 (16 * 1)) 4 ''0'' = ''0010''"
    by (simp add: toString16_16 padStart_zero numeral_2_eq_2)
  have a: "ascii [0x41, 0x41, 0x41, 0x41] = ''AAAA''"
    by (simp add: ascii_chars char_of_65)
  note t = hexdump_line_format [OF h, unfolded s c o a]
  from t have "hexdump (replicate 20 0x41) ! 1 =
       ''0010'' @ ''    '' @ (''41 41 41 41'' @ replicate 37 CHR '' '') @ ''   '' @ ''AAAA''"
    by (rule conjunct1)
  moreover from t have "spec_parse_hex_column (''41 41 41 41'' @ replicate 37 CHR '' '')
       = map (\<lambda>b. Some (unat b)) [0x41, 0x41, 0x41, 0x41 :: byte]"
    by blast
  ultimately show ?thesis using h by simp
qed

end
